theory Spec2Isabelle
  imports Complex_Main "HOL-Library.AList"
begin

section \<open>Data model of bot.py\<close>

text \<open>
  The fields of \<^verbatim>\<open>discord.Message\<close> that bot.py reads: \<^verbatim>\<open>message.id\<close>,
  \<^verbatim>\<open>message.channel.id\<close>, \<^verbatim>\<open>message.author\<close> (users are compared by id),
  \<^verbatim>\<open>message.content\<close>, \<^verbatim>\<open>message.reference\<close> (absent, or the id of the message
  replied to) and \<^verbatim>\<open>message.created_at.timestamp()\<close>.  Python floats (clock readings
  and timestamps) are idealised as reals; Python ints are unbounded integers.
\<close>

record message =
  msg_id :: int
  channel_id :: int
  author_id :: int
  content :: string
  reference :: "int option"
  created_at :: real

text \<open>The dataclass \<^verbatim>\<open>VotingSession\<close> (bot.py, lines 16-37).\<close>

record VotingSession =
  target_message :: message
  votes :: "int set"
  vote_count :: int

definition new_session :: "message \<Rightarrow> VotingSession" where
  "new_session m = \<lparr>target_message = m, votes = {}, vote_count = 0\<rparr>"

text \<open>
  The two methods mutate the session in place and return a flag; the model returns the
  flag together with the session after the call.
\<close>

definition add_vote :: "VotingSession \<Rightarrow> int \<Rightarrow> bool \<times> VotingSession" where
  "add_vote s user =
     (if user \<notin> votes s
      then (True, s\<lparr>votes := insert user (votes s), vote_count := vote_count s + 1\<rparr>)
      else (False, s))"

definition remove_vote :: "VotingSession \<Rightarrow> int \<Rightarrow> bool \<times> VotingSession" where
  "remove_vote s user =
     (if user \<in> votes s
      then (True, s\<lparr>votes := votes s - {user}, vote_count := vote_count s - 1\<rparr>)
      else (False, s))"

text \<open>A sequence of calls of the two methods on one session.\<close>

datatype vote_op = AddVote int | RemoveVote int

fun apply_vote_op :: "VotingSession \<Rightarrow> vote_op \<Rightarrow> VotingSession" where
  "apply_vote_op s (AddVote u) = snd (add_vote s u)"
| "apply_vote_op s (RemoveVote u) = snd (remove_vote s u)"

definition run_votes :: "VotingSession \<Rightarrow> vote_op list \<Rightarrow> VotingSession" where
  "run_votes s ops = foldl apply_vote_op s ops"

section \<open>The bot and its environment\<close>

text \<open>
  The state of a \<^verbatim>\<open>PinBot\<close> (bot.py, lines 39-63) that the handlers read and write:
  \<^verbatim>\<open>self.user\<close> (by id), \<^verbatim>\<open>self.confirm_cap\<close>, the dict \<^verbatim>\<open>self.voting_sessions\<close>
  and the \<^verbatim>\<open>defaultdict(float)\<close> \<^verbatim>\<open>self.pin_cooldown\<close>.  A dict is an association
  list in insertion order: \<open>AList.update\<close> is \<^verbatim>\<open>d[k] = v\<close>, \<open>AList.delete\<close> is
  \<^verbatim>\<open>del d[k]\<close>, \<open>map_of\<close> is \<^verbatim>\<open>d.get(k)\<close>.
\<close>

record PinBot =
  bot_user :: int
  confirm_cap :: int
  voting_sessions :: "(int \<times> VotingSession) list"
  pin_cooldown :: "(int \<times> real) list"

text \<open>\<^verbatim>\<open>PinBot.__init__\<close>; the user id is the one the platform assigns at login.\<close>

definition init_bot :: "int \<Rightarrow> int \<Rightarrow> PinBot" where
  "init_bot me cap =
     \<lparr>bot_user = me, confirm_cap = cap, voting_sessions = [], pin_cooldown = []\<rparr>"

definition PIN_COOLDOWN_SECONDS :: real where
  "PIN_COOLDOWN_SECONDS = 5"

text \<open>
  Everything a handler does to the outside, in program order: taking and leaving
  \<^verbatim>\<open>self.session_lock\<close>, the awaited platform calls, and the log records.
\<close>

datatype log_record =
    PinRateLimited int
  | PinSucceeded int
  | PinFailed int
  | VoteAdded int int int
  | VoteRemoved int int int
  | CleanedUp int
  | ReactionFailed string
  | HttpErrorInOnMessage

datatype action =
    Acquire
  | Release
  | FetchMessage int int
  | PinMessage message
  | AddReaction int string
  | Reply int string
  | Log log_record

text \<open>
  What the platform answers: \<^verbatim>\<open>fetch_message\<close> returns the message or raises
  \<^verbatim>\<open>discord.NotFound\<close> or another \<^verbatim>\<open>discord.HTTPException\<close>; \<^verbatim>\<open>message.pin()\<close> and
  \<^verbatim>\<open>message.add_reaction\<close> return or raise \<^verbatim>\<open>discord.HTTPException\<close> (a flag, True for
  a normal return).  Exceptions of other classes, and a failing \<^verbatim>\<open>message.reply\<close>, leave
  the handler and are outside the model.
\<close>

datatype fetch_result = Fetched message | FetchNotFound | FetchHTTPException

text \<open>The emoji and notices, as UTF-8 bytes.\<close>

definition check_mark :: string where
  "check_mark = [CHR 0xE2, CHR 0x9C, CHR 0x85]"

definition question_mark :: string where
  "question_mark = [CHR 0xE2, CHR 0x9D, CHR 0x93]"

definition cross_mark :: string where
  "cross_mark = [CHR 0xE2, CHR 0x9D, CHR 0x8C]"

definition slash_emoji :: string where
  "slash_emoji = ''<:slash:1284496769551568927>''"

definition number_emojis :: "string list" where
  "number_emojis =
     [''<:pixel1:942438227380408350>'', ''<:pixel2:942438227258785802>'',
      ''<:pixel3:942438227585957968>'', ''<:pixel4:942438227107786804>'',
      ''<:pixel5:942438227623702589>'', ''<:pixel6:942438227330089060>'',
      ''<:pixel7:942438227476901958>'', ''<:pixel8:942438227002949652>'',
      ''<:pixel9:942438227405602906>'', ''<:pixel10:942438227825029160>'']"

definition get_number_emoji :: "int \<Rightarrow> string" where
  "get_number_emoji num =
     (if 1 \<le> num \<and> num \<le> 10 then number_emojis ! nat (num - 1) else question_mark)"

text \<open>The decimal rendering of an int in an f-string, and \<^verbatim>\<open>str.startswith\<close>.\<close>

function str_nat :: "nat \<Rightarrow> string" where
  "str_nat n =
     (if n < 10 then [''0123456789'' ! n]
      else str_nat (n div 10) @ [''0123456789'' ! (n mod 10)])"
  by pat_completeness auto
termination
  by (relation "measure (\<lambda>n. n)") auto

declare str_nat.simps [simp del]

definition str_int :: "int \<Rightarrow> string" where
  "str_int i = (if i < 0 then CHR ''-'' # str_nat (nat (- i)) else str_nat (nat i))"

definition startswith :: "string \<Rightarrow> string \<Rightarrow> bool" where
  "startswith s p = (take (length p) s = p)"

subsection \<open>The pin executor with its rate limit\<close>

text \<open>
  \<^verbatim>\<open>self.pin_cooldown[channel_id]\<close> on a \<^verbatim>\<open>defaultdict(float)\<close>: a missing key reads as
  0.0 and is stored with that value.
\<close>

definition cooldown_get :: "(int \<times> real) list \<Rightarrow> int \<Rightarrow> real \<times> (int \<times> real) list" where
  "cooldown_get cd ch =
     (case map_of cd ch of
        Some t \<Rightarrow> (t, cd)
      | None \<Rightarrow> (0, AList.update ch 0 cd))"

text \<open>
  \<^verbatim>\<open>pin_message_safely\<close> (lines 137-154).  \<open>current_time\<close> is the reading of the event
  loop's clock, \<open>pin_ok\<close> the platform's answer to \<^verbatim>\<open>message.pin()\<close> should it be called.
\<close>

definition pin_message_safely ::
  "PinBot \<Rightarrow> message \<Rightarrow> real \<Rightarrow> bool \<Rightarrow> bool \<times> PinBot \<times> action list" where
  "pin_message_safely b m current_time pin_ok =
     (let ch = channel_id m;
          (last_pin, cd) = cooldown_get (pin_cooldown b) ch;
          b1 = b\<lparr>pin_cooldown := cd\<rparr>
      in if current_time - last_pin < PIN_COOLDOWN_SECONDS
         then (False, b1, [Log (PinRateLimited ch)])
         else if pin_ok
         then (True, b1\<lparr>pin_cooldown := AList.update ch current_time cd\<rparr>,
               [PinMessage m, Log (PinSucceeded (msg_id m))])
         else (False, b1, [PinMessage m, Log (PinFailed (msg_id m))]))"

subsection \<open>The reaction handlers\<close>

record reaction =
  emoji :: string
  reaction_message :: int

text \<open>\<^verbatim>\<open>on_reaction_add\<close> (lines 156-177).\<close>

definition on_reaction_add ::
  "PinBot \<Rightarrow> reaction \<Rightarrow> int \<Rightarrow> real \<Rightarrow> bool \<Rightarrow> PinBot \<times> action list" where
  "on_reaction_add b r user current_time pin_ok =
     (if user = bot_user b \<or> emoji r \<noteq> check_mark then (b, [])
      else
        let message_id = reaction_message r in
        case map_of (voting_sessions b) message_id of
          None \<Rightarrow> (b, [Acquire, Release])
        | Some session \<Rightarrow>
            (case add_vote session user of
               (False, _) \<Rightarrow> (b, [Acquire, Release])
             | (True, session') \<Rightarrow>
                 let b1 = b\<lparr>voting_sessions :=
                             AList.update message_id session' (voting_sessions b)\<rparr>;
                     tr = [Acquire, Log (VoteAdded user message_id (vote_count session'))]
                 in if vote_count session' \<ge> confirm_cap b
                    then
                      (case pin_message_safely b1 (target_message session') current_time pin_ok of
                         (success, b2, ptr) \<Rightarrow>
                           if success
                           then (b2\<lparr>voting_sessions :=
                                       AList.delete message_id (voting_sessions b2)\<rparr>,
                                 tr @ ptr @ [Release])
                           else (b2, tr @ ptr @ [Release]))
                    else (b1, tr @ [Release])))"

text \<open>\<^verbatim>\<open>on_reaction_remove\<close> (lines 179-193).\<close>

definition on_reaction_remove :: "PinBot \<Rightarrow> reaction \<Rightarrow> int \<Rightarrow> PinBot \<times> action list" where
  "on_reaction_remove b r user =
     (if user = bot_user b \<or> emoji r \<noteq> check_mark then (b, [])
      else
        let message_id = reaction_message r in
        case map_of (voting_sessions b) message_id of
          None \<Rightarrow> (b, [Acquire, Release])
        | Some session \<Rightarrow>
            (case remove_vote session user of
               (False, _) \<Rightarrow> (b, [Acquire, Release])
             | (True, session') \<Rightarrow>
                 (b\<lparr>voting_sessions := AList.update message_id session' (voting_sessions b)\<rparr>,
                  [Acquire, Log (VoteRemoved user message_id (vote_count session')), Release])))"

subsection \<open>The message handler\<close>

definition not_found_notice :: string where
  "not_found_notice = cross_mark @ '' Referenced message not found!''"

definition error_notice :: string where
  "error_notice = cross_mark @ '' An error occurred while processing your request.''"

definition addressed :: "PinBot \<Rightarrow> string \<Rightarrow> bool" where
  "addressed b text =
     (startswith text (''<@'' @ str_int (bot_user b) @ ''>'') \<or>
      startswith text (''<@!'' @ str_int (bot_user b) @ ''>''))"

text \<open>
  The loop over the three reactions (lines 125-129): a reaction that fails is logged and
  the loop goes on.  \<open>react_ok e\<close> is the platform's answer to adding \<open>e\<close>.
\<close>

fun add_reactions :: "int \<Rightarrow> (string \<Rightarrow> bool) \<Rightarrow> string list \<Rightarrow> action list" where
  "add_reactions mid react_ok [] = []"
| "add_reactions mid react_ok (e # es) =
     (if react_ok e then [AddReaction mid e]
      else [AddReaction mid e, Log (ReactionFailed e)]) @ add_reactions mid react_ok es"

text \<open>
  \<^verbatim>\<open>on_message\<close> (lines 99-135).  \<open>fetched\<close> is the platform's answer to
  \<^verbatim>\<open>fetch_message\<close>; \<open>current_time\<close> and \<open>pin_ok\<close> are passed on to the pin executor.
  The two tests of line 101 (the author is the bot, there is no reference) read the
  message only and both return at once, so the model takes the reference apart first.
\<close>

definition on_message ::
  "PinBot \<Rightarrow> message \<Rightarrow> fetch_result \<Rightarrow> (string \<Rightarrow> bool) \<Rightarrow> real \<Rightarrow> bool
     \<Rightarrow> PinBot \<times> action list" where
  "on_message b m fetched react_ok current_time pin_ok =
     (case reference m of
        None \<Rightarrow> (b, [])
      | Some ref \<Rightarrow>
          if author_id m = bot_user b then (b, [])
          else if \<not> addressed b (content m) then (b, [])
          else
            (case fetched of
               FetchNotFound \<Rightarrow>
                 (b, [FetchMessage (channel_id m) ref, Reply (msg_id m) not_found_notice])
             | FetchHTTPException \<Rightarrow>
                 (b, [FetchMessage (channel_id m) ref, Log HttpErrorInOnMessage,
                      Reply (msg_id m) error_notice])
             | Fetched target \<Rightarrow>
                 if confirm_cap b = 0
                 then
                   (case pin_message_safely b target current_time pin_ok of
                      (_, b1, ptr) \<Rightarrow> (b1, FetchMessage (channel_id m) ref # ptr))
                 else
                   let session = new_session target;
                       b1 = b\<lparr>voting_sessions :=
                               AList.update (msg_id m) session (voting_sessions b)\<rparr>;
                       reactions = [check_mark, slash_emoji, get_number_emoji (confirm_cap b)]
                   in (b1, [FetchMessage (channel_id m) ref, Acquire, Release]
                           @ add_reactions (msg_id m) react_ok reactions)))"

subsection \<open>The periodic cleanup\<close>

text \<open>
  One pass of the loop body of \<^verbatim>\<open>periodic_cleanup\<close> (lines 77-88), run with the clock
  reading \<open>current_time\<close>: the keys to remove are collected first and deleted afterwards.
\<close>

definition cleanup_sweep :: "PinBot \<Rightarrow> real \<Rightarrow> PinBot \<times> action list" where
  "cleanup_sweep b current_time =
     (let to_remove =
            map fst (filter (\<lambda>(k, session).
                               current_time - created_at (target_message session) > 3600)
                            (voting_sessions b))
      in (b\<lparr>voting_sessions := foldl (\<lambda>vs k. AList.delete k vs) (voting_sessions b) to_remove\<rparr>,
          [Acquire] @ map (\<lambda>k. Log (CleanedUp k)) to_remove @ [Release]))"

text \<open>
  The loop itself, over the clock readings of the passes made before the bot is closed.
\<close>

fun periodic_cleanup :: "PinBot \<Rightarrow> real list \<Rightarrow> PinBot" where
  "periodic_cleanup b [] = b"
| "periodic_cleanup b (t # ts) = periodic_cleanup (fst (cleanup_sweep b t)) ts"

subsection \<open>Startup\<close>

text \<open>
  \<^verbatim>\<open>main\<close> (lines 201-218) reads the environment, a map from names to values.  The
  builtin \<^verbatim>\<open>int\<close> is a parameter: \<open>py_int s\<close> is \<open>Some\<close> of the parsed number, or
  \<open>None\<close> where \<^verbatim>\<open>int(s)\<close> raises \<^verbatim>\<open>ValueError\<close>.  The result says how far startup got:
  \<open>BotRun token cap\<close> stands for \<^verbatim>\<open>PinBot(confirm_cap=cap).run(token)\<close>.
\<close>

datatype startup = TokenNotSet | CapNotAnInteger | CapOutOfRange | BotRun string int

definition getenv :: "(string \<rightharpoonup> string) \<Rightarrow> string \<Rightarrow> string \<Rightarrow> string" where
  "getenv env name dflt = (case env name of None \<Rightarrow> dflt | Some v \<Rightarrow> v)"

definition main :: "(string \<Rightarrow> int option) \<Rightarrow> (string \<rightharpoonup> string) \<Rightarrow> startup" where
  "main py_int env =
     (case env ''TOKEN'' of
        None \<Rightarrow> TokenNotSet
      | Some token \<Rightarrow>
          if token = [] then TokenNotSet
          else
            (case py_int (getenv env ''CONFIRM_CAP'' ''3'') of
               None \<Rightarrow> CapNotAnInteger
             | Some cap \<Rightarrow>
                 if \<not> (0 \<le> cap \<and> cap \<le> 10) then CapOutOfRange
                 else BotRun token cap))"

text \<open>Plain decimal numerals (an optional sign, then digits), on which \<^verbatim>\<open>int\<close> is this.\<close>

fun digits_value :: "int \<Rightarrow> string \<Rightarrow> int option" where
  "digits_value acc [] = Some acc"
| "digits_value acc (c # cs) =
     (let d = (of_char c :: int) in
      if 48 \<le> d \<and> d \<le> 57 then digits_value (10 * acc + (d - 48)) cs else None)"

definition decimal_int :: "string \<Rightarrow> int option" where
  "decimal_int s =
     (case s of
        [] \<Rightarrow> None
      | c # cs \<Rightarrow>
          if c = CHR ''-'' then (if cs = [] then None else map_option uminus (digits_value 0 cs))
          else if c = CHR ''+'' then (if cs = [] then None else digits_value 0 cs)
          else digits_value 0 s)"

section \<open>Event sequences and sample data\<close>

text \<open>Reaction-add events on one message, delivered one after the other: each carries the
  reacting user, the clock reading and the platform's answer to a pin call.\<close>

fun reaction_adds :: "PinBot \<Rightarrow> reaction \<Rightarrow> (int \<times> real \<times> bool) list \<Rightarrow> PinBot \<times> action list" where
  "reaction_adds b r [] = (b, [])"
| "reaction_adds b r ((user, t, pin_ok) # evs) =
     (case on_reaction_add b r user t pin_ok of
        (b1, tr1) \<Rightarrow> (case reaction_adds b1 r evs of (b2, tr2) \<Rightarrow> (b2, tr1 @ tr2)))"

text \<open>
  The actions by which a run of the pin executor shows in a trace: every branch of
  \<^verbatim>\<open>pin_message_safely\<close> logs, and two of them call the platform.
\<close>

fun pin_action :: "action \<Rightarrow> bool" where
  "pin_action (PinMessage m) = True"
| "pin_action (Log (PinRateLimited c)) = True"
| "pin_action (Log (PinSucceeded i)) = True"
| "pin_action (Log (PinFailed i)) = True"
| "pin_action a = False"

text \<open>
  Calls to the platform, and the discipline that none of them is made between taking
  and leaving the session lock (\<open>held\<close> says whether the lock is held at the start).
\<close>

fun external :: "action \<Rightarrow> bool" where
  "external (FetchMessage c i) = True"
| "external (PinMessage m) = True"
| "external (AddReaction i e) = True"
| "external (Reply i s) = True"
| "external a = False"

fun no_call_under_lock :: "bool \<Rightarrow> action list \<Rightarrow> bool" where
  "no_call_under_lock held [] = True"
| "no_call_under_lock held (Acquire # tr) = no_call_under_lock True tr"
| "no_call_under_lock held (Release # tr) = no_call_under_lock False tr"
| "no_call_under_lock held (a # tr) = (\<not> (held \<and> external a) \<and> no_call_under_lock held tr)"

text \<open>A target message, a message that triggers a vote on it, an approving reaction to
  the trigger, and a bot (user 42) holding the fresh session of that trigger.\<close>

definition ex_target :: message where
  "ex_target = \<lparr>msg_id = 100, channel_id = 9, author_id = 5, content = ''hello'',
                 reference = None, created_at = 0\<rparr>"

definition ex_trigger :: message where
  "ex_trigger = \<lparr>msg_id = 1, channel_id = 9, author_id = 6, content = ''<@42> pin this'',
                  reference = Some 100, created_at = 50\<rparr>"

definition ex_reaction :: reaction where
  "ex_reaction = \<lparr>emoji = check_mark, reaction_message = 1\<rparr>"

definition ex_bot :: "int \<Rightarrow> PinBot" where
  "ex_bot cap = \<lparr>bot_user = 42, confirm_cap = cap,
                  voting_sessions = [(1, new_session ex_target)], pin_cooldown = []\<rparr>"

text \<open>
  A target message with a timestamp as the platform gives it (seconds since 1970, here
  a day in November 2023; no message of the platform is older than 2015-01-01, which
  is 1420070400), and the bot holding the session of a trigger on it.
\<close>

definition ex_dated_target :: message where
  "ex_dated_target = \<lparr>msg_id = 100, channel_id = 9, author_id = 5, content = ''hello'',
                       reference = None, created_at = 1700000000\<rparr>"

definition ex_dated_bot :: PinBot where
  "ex_dated_bot = \<lparr>bot_user = 42, confirm_cap = 3,
                    voting_sessions = [(1, new_session ex_dated_target)], pin_cooldown = []\<rparr>"

text \<open>The invariant of a session: the cached count is the size of the (finite) set.\<close>

definition count_ok :: "VotingSession \<Rightarrow> bool" where
  "count_ok s = (finite (votes s) \<and> vote_count s = int (card (votes s)))"

section \<open>Unfolding the sample data\<close>

lemmas ex_defs = ex_target_def ex_trigger_def ex_reaction_def ex_bot_def new_session_def

lemmas run_defs = on_reaction_add_def add_vote_def pin_message_safely_def cooldown_get_def
  PIN_COOLDOWN_SECONDS_def check_mark_def

lemmas msg_defs = on_message_def addressed_def startswith_def str_int_def str_nat.simps

section \<open>The vote counter\<close>

lemma count_ok_new: "count_ok (new_session m)"
  by (simp add: count_ok_def new_session_def)

lemma count_ok_add: "count_ok s \<Longrightarrow> count_ok (snd (add_vote s u))"
  by (simp add: count_ok_def add_vote_def)

lemma count_ok_remove:
  assumes "count_ok s"
  shows "count_ok (snd (remove_vote s u))"
proof (cases "u \<in> votes s")
  case False
  with assms show ?thesis by (simp add: remove_vote_def)
next
  case True
  from assms have fin: "finite (votes s)" and cnt: "vote_count s = int (card (votes s))"
    by (simp_all add: count_ok_def)
  from fin True have "card (votes s) = Suc (card (votes s - {u}))"
    by (rule card.remove)
  then have "int (card (votes s - {u})) = int (card (votes s)) - 1"
    by linarith
  with fin cnt True show ?thesis
    by (simp add: count_ok_def remove_vote_def)
qed

lemma count_ok_op: "count_ok s \<Longrightarrow> count_ok (apply_vote_op s x)"
  by (cases x) (simp_all add: count_ok_add count_ok_remove)

lemma count_ok_foldl: "count_ok s \<Longrightarrow> count_ok (foldl apply_vote_op s xs)"
  by (induction xs arbitrary: s) (simp_all add: count_ok_op)

text \<open>
  C4.  Starting from the empty session, after every prefix of every sequence of
  \<^verbatim>\<open>add_vote\<close> and \<^verbatim>\<open>remove_vote\<close> calls (that is, after every operation of the
  sequence) the cached \<^verbatim>\<open>vote_count\<close> equals the number of elements of \<^verbatim>\<open>votes\<close>.
\<close>

theorem vote_count_is_card:
  "vote_count (run_votes (new_session m) (take k ops)) =
     int (card (votes (run_votes (new_session m) (take k ops))))"
proof -
  have "count_ok (foldl apply_vote_op (new_session m) (take k ops))"
    by (rule count_ok_foldl [OF count_ok_new])
  then show ?thesis
    by (simp add: run_votes_def count_ok_def)
qed

text \<open>
  The instance for two votes followed by a withdrawal: one voter is left and the count
  is 1.
\<close>

theorem vote_count_is_card_witness:
  "run_votes (new_session ex_target) (take 3 [AddVote 7, AddVote 8, RemoveVote 7, AddVote 7]) =
     \<lparr>target_message = ex_target, votes = {8}, vote_count = 1\<rparr> \<and>
   vote_count (run_votes (new_session ex_target)
       (take 3 [AddVote 7, AddVote 8, RemoveVote 7, AddVote 7])) =
     int (card (votes (run_votes (new_session ex_target)
       (take 3 [AddVote 7, AddVote 8, RemoveVote 7, AddVote 7]))))"
proof -
  have "run_votes (new_session ex_target)
      (take 3 [AddVote 7, AddVote 8, RemoveVote 7, AddVote 7]) =
     \<lparr>target_message = ex_target, votes = {8}, vote_count = 1\<rparr>"
    by (auto simp: run_votes_def new_session_def add_vote_def remove_vote_def)
  with vote_count_is_card [of ex_target 3 "[AddVote 7, AddVote 8, RemoveVote 7, AddVote 7]"]
  show ?thesis by simp
qed

lemma add_vote_new:
  "u \<notin> votes s \<Longrightarrow>
     add_vote s u = (True, s\<lparr>votes := insert u (votes s), vote_count := vote_count s + 1\<rparr>)"
  by (simp add: add_vote_def)

text \<open>
  C7.  \<^verbatim>\<open>add_vote\<close> is idempotent: a second call with the same user returns False and
  leaves the session as the first call left it.  The same holds for \<^verbatim>\<open>remove_vote\<close>,
  which moreover returns False and changes nothing when the user is not among the
  voters (as \<^verbatim>\<open>add_vote\<close> does when the user already is).
\<close>

theorem vote_idempotent:
  "add_vote (snd (add_vote s u)) u = (False, snd (add_vote s u)) \<and>
   remove_vote (snd (remove_vote s u)) u = (False, snd (remove_vote s u)) \<and>
   (u \<in> votes s \<longrightarrow> add_vote s u = (False, s)) \<and>
   (u \<notin> votes s \<longrightarrow> remove_vote s u = (False, s))"
  by (simp add: add_vote_def remove_vote_def)

text \<open>
  The instance for user 7 on the empty session and on the session holding the vote
  of user 7.
\<close>

theorem vote_idempotent_witness:
  "add_vote (snd (add_vote (new_session ex_target) 7)) 7 =
     (False, \<lparr>target_message = ex_target, votes = {7}, vote_count = 1\<rparr>) \<and>
   remove_vote (snd (remove_vote \<lparr>target_message = ex_target, votes = {7}, vote_count = 1\<rparr> 7)) 7 =
     (False, \<lparr>target_message = ex_target, votes = {}, vote_count = 0\<rparr>) \<and>
   7 \<notin> votes (new_session ex_target) \<and>
   remove_vote (new_session ex_target) 7 = (False, new_session ex_target)"
  using vote_idempotent [of "new_session ex_target" 7]
    vote_idempotent [of "\<lparr>target_message = ex_target, votes = {7}, vote_count = 1\<rparr>" 7]
  by (simp add: new_session_def add_vote_def remove_vote_def)

section \<open>The pin executor and its rate limit\<close>

lemma pin_success:
  "fst (pin_message_safely b m t ok) =
     (PIN_COOLDOWN_SECONDS \<le> t - fst (cooldown_get (pin_cooldown b) (channel_id m)) \<and> ok)"
  by (auto simp: pin_message_safely_def Let_def split: prod.splits)

lemma pin_trace:
  "snd (snd (pin_message_safely b m t ok)) =
     (if t - fst (cooldown_get (pin_cooldown b) (channel_id m)) < PIN_COOLDOWN_SECONDS
      then [Log (PinRateLimited (channel_id m))]
      else if ok then [PinMessage m, Log (PinSucceeded (msg_id m))]
      else [PinMessage m, Log (PinFailed (msg_id m))])"
  by (auto simp: pin_message_safely_def Let_def split: prod.splits)

lemma pin_trace_active: "filter pin_action (snd (snd (pin_message_safely b m t ok))) \<noteq> []"
  by (simp add: pin_trace)

lemma pin_keeps_sessions:
  "voting_sessions (fst (snd (pin_message_safely b m t ok))) = voting_sessions b"
  by (auto simp: pin_message_safely_def Let_def split: prod.splits)

lemma cooldown_get_lookup:
  "map_of (snd (cooldown_get cd ch)) ch = Some (fst (cooldown_get cd ch))"
  by (simp add: cooldown_get_def update_conv' split: option.splits)

lemma pin_records:
  "map_of (pin_cooldown (fst (snd (pin_message_safely b m t ok)))) (channel_id m) =
     Some (if fst (pin_message_safely b m t ok) then t
           else fst (cooldown_get (pin_cooldown b) (channel_id m)))"
  using cooldown_get_lookup [of "pin_cooldown b" "channel_id m"]
  by (auto simp: pin_message_safely_def Let_def update_conv' split: prod.splits)

text \<open>
  C5, as the code has it.  \<^verbatim>\<open>pin_message_safely\<close> returns True, and records the clock
  reading as the channel's last pin time, iff the reading is at least
  \<^verbatim>\<open>PIN_COOLDOWN_SECONDS\<close> past the recorded last pin time (a channel with no entry reads
  as 0.0) and the platform's pin call succeeds; otherwise it returns False and the
  recorded time stays what it was read as.  Consequently a second attempt on the same
  channel less than \<^verbatim>\<open>PIN_COOLDOWN_SECONDS\<close> after a successful one is turned away
  without a call to the platform: of two such attempts at most one pins.
\<close>

theorem pin_rate_limit:
  "fst (pin_message_safely b m t ok) =
     (PIN_COOLDOWN_SECONDS \<le> t - (case map_of (pin_cooldown b) (channel_id m) of
                                       None \<Rightarrow> 0 | Some last_pin \<Rightarrow> last_pin) \<and> ok) \<and>
   map_of (pin_cooldown (fst (snd (pin_message_safely b m t ok)))) (channel_id m) =
     Some (if fst (pin_message_safely b m t ok) then t
           else (case map_of (pin_cooldown b) (channel_id m) of
                   None \<Rightarrow> 0 | Some last_pin \<Rightarrow> last_pin)) \<and>
   (channel_id m' = channel_id m \<and> t' - t < PIN_COOLDOWN_SECONDS \<and>
    fst (pin_message_safely b m t ok) \<longrightarrow>
      pin_message_safely (fst (snd (pin_message_safely b m t ok))) m' t' ok' =
        (False, fst (snd (pin_message_safely b m t ok)), [Log (PinRateLimited (channel_id m))]))"
proof -
  have last: "fst (cooldown_get (pin_cooldown b) (channel_id m)) =
      (case map_of (pin_cooldown b) (channel_id m) of None \<Rightarrow> 0 | Some last_pin \<Rightarrow> last_pin)"
    by (simp add: cooldown_get_def split: option.splits)
  have a: "fst (pin_message_safely b m t ok) =
     (PIN_COOLDOWN_SECONDS \<le> t - (case map_of (pin_cooldown b) (channel_id m) of
                                       None \<Rightarrow> 0 | Some last_pin \<Rightarrow> last_pin) \<and> ok)"
    using pin_success [of b m t ok] last by simp
  have r: "map_of (pin_cooldown (fst (snd (pin_message_safely b m t ok)))) (channel_id m) =
     Some (if fst (pin_message_safely b m t ok) then t
           else (case map_of (pin_cooldown b) (channel_id m) of
                   None \<Rightarrow> 0 | Some last_pin \<Rightarrow> last_pin))"
    using pin_records [of b m t ok] last by simp
  have c: "pin_message_safely (fst (snd (pin_message_safely b m t ok))) m' t' ok' =
        (False, fst (snd (pin_message_safely b m t ok)), [Log (PinRateLimited (channel_id m))])"
    if "channel_id m' = channel_id m" "t' - t < PIN_COOLDOWN_SECONDS"
       "fst (pin_message_safely b m t ok)"
  proof -
    let ?b1 = "fst (snd (pin_message_safely b m t ok))"
    from r that have look: "map_of (pin_cooldown ?b1) (channel_id m) = Some t" by simp
    then have "cooldown_get (pin_cooldown ?b1) (channel_id m) = (t, pin_cooldown ?b1)"
      by (simp add: cooldown_get_def)
    with that show ?thesis
      by (simp add: pin_message_safely_def [of ?b1])
  qed
  from a r c show ?thesis by blast
qed

text \<open>
  The instance for a channel last pinned at 10: the attempt at 30 pins and records 30,
  the attempt at 32 is rate limited.
\<close>

theorem pin_rate_limit_witness:
  "pin_message_safely ((ex_bot 1)\<lparr>pin_cooldown := [(9, 10)]\<rparr>) ex_target 30 True =
     (True, (ex_bot 1)\<lparr>pin_cooldown := [(9, 30)]\<rparr>,
      [PinMessage ex_target, Log (PinSucceeded 100)]) \<and>
   channel_id ex_target = channel_id ex_target \<and> (32::real) - 30 < PIN_COOLDOWN_SECONDS \<and>
   pin_message_safely ((ex_bot 1)\<lparr>pin_cooldown := [(9, 30)]\<rparr>) ex_target 32 True =
     (False, (ex_bot 1)\<lparr>pin_cooldown := [(9, 30)]\<rparr>, [Log (PinRateLimited 9)])"
proof -
  have first: "pin_message_safely ((ex_bot 1)\<lparr>pin_cooldown := [(9, 10)]\<rparr>) ex_target 30 True =
     (True, (ex_bot 1)\<lparr>pin_cooldown := [(9, 30)]\<rparr>,
      [PinMessage ex_target, Log (PinSucceeded 100)])"
    by (simp add: ex_defs pin_message_safely_def cooldown_get_def PIN_COOLDOWN_SECONDS_def)
  have near: "(32::real) - 30 < PIN_COOLDOWN_SECONDS"
    by (simp add: PIN_COOLDOWN_SECONDS_def)
  from pin_rate_limit [of "(ex_bot 1)\<lparr>pin_cooldown := [(9, 10)]\<rparr>" ex_target 30 True
      ex_target 32 True] first near
  have "pin_message_safely ((ex_bot 1)\<lparr>pin_cooldown := [(9, 30)]\<rparr>) ex_target 32 True =
     (False, (ex_bot 1)\<lparr>pin_cooldown := [(9, 30)]\<rparr>, [Log (PinRateLimited (channel_id ex_target))])"
    by simp
  with first near show ?thesis by (simp add: ex_target_def)
qed

text \<open>
  C5 as the specification words it fails twice.  A channel without an entry is not
  allowed at once: at clock reading 3 the attempt is rate limited.  And an attempt made
  20 seconds after the last pin whose platform call fails returns False and records
  nothing.
\<close>

theorem acquire_counterexample:
  "map_of (pin_cooldown (ex_bot 1)) (channel_id ex_target) = None \<and>
   \<not> fst (pin_message_safely (ex_bot 1) ex_target 3 True) \<and>
   PIN_COOLDOWN_SECONDS \<le> 30 - 10 \<and>
   pin_message_safely ((ex_bot 1)\<lparr>pin_cooldown := [(9, 10)]\<rparr>) ex_target 30 False =
     (False, (ex_bot 1)\<lparr>pin_cooldown := [(9, 10)]\<rparr>,
      [PinMessage ex_target, Log (PinFailed 100)])"
  by (simp add: ex_defs pin_message_safely_def cooldown_get_def PIN_COOLDOWN_SECONDS_def)

section \<open>Reaching the threshold\<close>

lemma on_reaction_add_threshold:
  assumes "user \<noteq> bot_user b" and "emoji r = check_mark"
    and "map_of (voting_sessions b) (reaction_message r) = Some s"
    and "user \<notin> votes s"
    and "confirm_cap b \<le> vote_count s + 1"
  shows "on_reaction_add b r user t pin_ok =
     (case pin_message_safely
             (b\<lparr>voting_sessions := AList.update (reaction_message r)
                  (s\<lparr>votes := insert user (votes s), vote_count := vote_count s + 1\<rparr>)
                  (voting_sessions b)\<rparr>)
             (target_message s) t pin_ok of
        (success, b2, ptr) \<Rightarrow>
          (if success
           then b2\<lparr>voting_sessions := AList.delete (reaction_message r) (voting_sessions b2)\<rparr>
           else b2,
           [Acquire, Log (VoteAdded user (reaction_message r) (vote_count s + 1))]
             @ ptr @ [Release]))"
  using assms by (simp add: on_reaction_add_def add_vote_new Let_def split: prod.splits)

lemma on_reaction_add_below:
  assumes "user \<noteq> bot_user b" and "emoji r = check_mark"
    and "map_of (voting_sessions b) (reaction_message r) = Some s"
    and "user \<notin> votes s"
    and "vote_count s + 1 < confirm_cap b"
  shows "on_reaction_add b r user t pin_ok =
     (b\<lparr>voting_sessions := AList.update (reaction_message r)
          (s\<lparr>votes := insert user (votes s), vote_count := vote_count s + 1\<rparr>)
          (voting_sessions b)\<rparr>,
      [Acquire, Log (VoteAdded user (reaction_message r) (vote_count s + 1)), Release])"
  using assms by (simp add: on_reaction_add_def add_vote_new Let_def)

text \<open>
  C1, as the code has it.  When an approving reaction of a new voter raises the count
  to at least \<^verbatim>\<open>confirm_cap\<close>, the handler records the vote, runs the pin executor on
  the session's target message while holding the lock, and deletes the session only
  if the executor returned True, that is, if the pin was neither rate limited nor
  failed; otherwise the session stays in the store with the vote recorded.
\<close>

theorem threshold_pin_then_remove_on_success:
  assumes "user \<noteq> bot_user b" and "emoji r = check_mark"
    and "map_of (voting_sessions b) (reaction_message r) = Some s"
    and "user \<notin> votes s"
    and "confirm_cap b \<le> vote_count s + 1"
  shows
    "let s' = s\<lparr>votes := insert user (votes s), vote_count := vote_count s + 1\<rparr>;
         b1 = b\<lparr>voting_sessions := AList.update (reaction_message r) s' (voting_sessions b)\<rparr>;
         (success, b2, ptr) = pin_message_safely b1 (target_message s) t pin_ok;
         (b', tr) = on_reaction_add b r user t pin_ok
     in tr = [Acquire, Log (VoteAdded user (reaction_message r) (vote_count s + 1))]
               @ ptr @ [Release] \<and>
        map_of (voting_sessions b') (reaction_message r) = (if success then None else Some s') \<and>
        success =
          (PIN_COOLDOWN_SECONDS \<le>
             t - fst (cooldown_get (pin_cooldown b) (channel_id (target_message s))) \<and> pin_ok)"
proof -
  let ?k = "reaction_message r"
  let ?s' = "s\<lparr>votes := insert user (votes s), vote_count := vote_count s + 1\<rparr>"
  let ?b1 = "b\<lparr>voting_sessions := AList.update ?k ?s' (voting_sessions b)\<rparr>"
  obtain success b2 ptr where
    p: "pin_message_safely ?b1 (target_message s) t pin_ok = (success, b2, ptr)"
    by (cases "pin_message_safely ?b1 (target_message s) t pin_ok") auto
  have vs: "voting_sessions b2 = AList.update ?k ?s' (voting_sessions b)"
    using pin_keeps_sessions [of ?b1 "target_message s" t pin_ok] p by simp
  have suc: "success =
      (PIN_COOLDOWN_SECONDS \<le>
         t - fst (cooldown_get (pin_cooldown b) (channel_id (target_message s))) \<and> pin_ok)"
    using pin_success [of ?b1 "target_message s" t pin_ok] p by simp
  have run: "on_reaction_add b r user t pin_ok =
      (if success then b2\<lparr>voting_sessions := AList.delete ?k (voting_sessions b2)\<rparr> else b2,
       [Acquire, Log (VoteAdded user ?k (vote_count s + 1))] @ ptr @ [Release])"
    using assms p by (simp add: on_reaction_add_def add_vote_new Let_def)
  have look: "map_of (voting_sessions
        (if success then b2\<lparr>voting_sessions := AList.delete ?k (voting_sessions b2)\<rparr> else b2)) ?k =
      (if success then None else Some ?s')"
    by (simp add: vs delete_conv' update_conv')
  from p run look suc show ?thesis
    by (simp add: Let_def)
qed

text \<open>
  The instance for a bot with \<^verbatim>\<open>confirm_cap\<close> 1 and the first vote at clock reading 30:
  with a successful pin the session is gone, with a failed one it stays.
\<close>

theorem threshold_pin_then_remove_on_success_witness:
  "7 \<noteq> bot_user (ex_bot 1) \<and> emoji ex_reaction = check_mark \<and>
   map_of (voting_sessions (ex_bot 1)) (reaction_message ex_reaction) = Some (new_session ex_target) \<and>
   7 \<notin> votes (new_session ex_target) \<and>
   confirm_cap (ex_bot 1) \<le> vote_count (new_session ex_target) + 1 \<and>
   snd (on_reaction_add (ex_bot 1) ex_reaction 7 30 True) =
     [Acquire, Log (VoteAdded 7 1 1), PinMessage ex_target, Log (PinSucceeded 100), Release] \<and>
   map_of (voting_sessions (fst (on_reaction_add (ex_bot 1) ex_reaction 7 30 True))) 1 = None \<and>
   map_of (voting_sessions (fst (on_reaction_add (ex_bot 1) ex_reaction 7 30 False))) 1 =
     Some \<lparr>target_message = ex_target, votes = {7}, vote_count = 1\<rparr>"
proof -
  have h1: "7 \<noteq> bot_user (ex_bot 1)" by (simp add: ex_defs)
  have h2: "emoji ex_reaction = check_mark" by (simp add: ex_defs)
  have h3: "map_of (voting_sessions (ex_bot 1)) (reaction_message ex_reaction) =
      Some (new_session ex_target)"
    by (simp add: ex_defs)
  have h4: "7 \<notin> votes (new_session ex_target)" by (simp add: ex_defs)
  have h5: "confirm_cap (ex_bot 1) \<le> vote_count (new_session ex_target) + 1"
    by (simp add: ex_defs)
  note th = threshold_pin_then_remove_on_success [OF h1 h2 h3 h4 h5]
  have p: "pin_message_safely
       ((ex_bot 1)\<lparr>voting_sessions := AList.update 1
           \<lparr>target_message = ex_target, votes = {7}, vote_count = 1\<rparr>
           (voting_sessions (ex_bot 1))\<rparr>) ex_target 30 ok =
     (ok, \<lparr>bot_user = 42, confirm_cap = 1,
        voting_sessions = [(1, \<lparr>target_message = ex_target, votes = {7}, vote_count = 1\<rparr>)],
        pin_cooldown = (if ok then [(9, 30)] else [(9, 0)])\<rparr>,
      if ok then [PinMessage ex_target, Log (PinSucceeded 100)]
      else [PinMessage ex_target, Log (PinFailed 100)])" for ok
    by (simp add: run_defs ex_defs)
  from th [of 30 True] th [of 30 False] p [of True] p [of False]
  have "snd (on_reaction_add (ex_bot 1) ex_reaction 7 30 True) =
     [Acquire, Log (VoteAdded 7 1 1), PinMessage ex_target, Log (PinSucceeded 100), Release] \<and>
   map_of (voting_sessions (fst (on_reaction_add (ex_bot 1) ex_reaction 7 30 True))) 1 = None \<and>
   map_of (voting_sessions (fst (on_reaction_add (ex_bot 1) ex_reaction 7 30 False))) 1 =
     Some \<lparr>target_message = ex_target, votes = {7}, vote_count = 1\<rparr>"
    by (simp add: Let_def new_session_def ex_reaction_def split: prod.splits)
  with h1 h2 h3 h4 h5 show ?thesis by blast
qed

text \<open>
  C1 as the specification words it fails: with \<^verbatim>\<open>confirm_cap\<close> 1, the first vote
  reaches the threshold, but when the pin fails (or is rate limited, at clock reading 3)
  the session is still in the store after the handler has returned.
\<close>

theorem session_kept_when_pin_fails:
  "confirm_cap (ex_bot 1) \<le> vote_count (snd (add_vote (new_session ex_target) 7)) \<and>
   on_reaction_add (ex_bot 1) ex_reaction 7 30 False =
     (\<lparr>bot_user = 42, confirm_cap = 1,
        voting_sessions = [(1, \<lparr>target_message = ex_target, votes = {7}, vote_count = 1\<rparr>)],
        pin_cooldown = [(9, 0)]\<rparr>,
      [Acquire, Log (VoteAdded 7 1 1), PinMessage ex_target, Log (PinFailed 100), Release]) \<and>
   on_reaction_add (ex_bot 1) ex_reaction 7 3 True =
     (\<lparr>bot_user = 42, confirm_cap = 1,
        voting_sessions = [(1, \<lparr>target_message = ex_target, votes = {7}, vote_count = 1\<rparr>)],
        pin_cooldown = [(9, 0)]\<rparr>,
      [Acquire, Log (VoteAdded 7 1 1), Log (PinRateLimited 9), Release])"
  by (simp add: run_defs ex_defs)

lemma votes_below_threshold:
  assumes "emoji r = check_mark"
    and "map_of (voting_sessions b) (reaction_message r) = Some s"
    and "distinct (map fst evs)"
    and "bot_user b \<notin> fst ` set evs"
    and "fst ` set evs \<inter> votes s = {}"
    and "vote_count s + int (length evs) < confirm_cap b"
  shows "filter pin_action (snd (reaction_adds b r evs)) = [] \<and>
         map_of (voting_sessions (fst (reaction_adds b r evs))) (reaction_message r) =
           Some (s\<lparr>votes := votes s \<union> fst ` set evs,
                    vote_count := vote_count s + int (length evs)\<rparr>) \<and>
         confirm_cap (fst (reaction_adds b r evs)) = confirm_cap b \<and>
         bot_user (fst (reaction_adds b r evs)) = bot_user b"
  using assms
proof (induction evs arbitrary: b s)
  case Nil
  then show ?case by simp
next
  case (Cons ev evs)
  obtain user t pin_ok where ev: "ev = (user, t, pin_ok)"
    by (cases ev) auto
  let ?s1 = "s\<lparr>votes := insert user (votes s), vote_count := vote_count s + 1\<rparr>"
  let ?b1 = "b\<lparr>voting_sessions := AList.update (reaction_message r) ?s1 (voting_sessions b)\<rparr>"
  from Cons.prems ev have u: "user \<noteq> bot_user b" "user \<notin> votes s"
    and below: "vote_count s + 1 < confirm_cap b"
    by auto
  have step: "on_reaction_add b r user t pin_ok =
      (?b1, [Acquire, Log (VoteAdded user (reaction_message r) (vote_count s + 1)), Release])"
    by (rule on_reaction_add_below [OF u(1) Cons.prems(1) Cons.prems(2) u(2) below])
  have look: "map_of (voting_sessions ?b1) (reaction_message r) = Some ?s1"
    by (simp add: update_conv')
  have ih: "filter pin_action (snd (reaction_adds ?b1 r evs)) = [] \<and>
         map_of (voting_sessions (fst (reaction_adds ?b1 r evs))) (reaction_message r) =
           Some (?s1\<lparr>votes := votes ?s1 \<union> fst ` set evs,
                    vote_count := vote_count ?s1 + int (length evs)\<rparr>) \<and>
         confirm_cap (fst (reaction_adds ?b1 r evs)) = confirm_cap ?b1 \<and>
         bot_user (fst (reaction_adds ?b1 r evs)) = bot_user ?b1"
  proof (rule Cons.IH [OF Cons.prems(1) look])
    from Cons.prems(3) show "distinct (map fst evs)" by simp
    from Cons.prems(4) show "bot_user ?b1 \<notin> fst ` set evs" by simp
    from Cons.prems(3,5) ev show "fst ` set evs \<inter> votes ?s1 = {}" by auto
    from Cons.prems(6) show "vote_count ?s1 + int (length evs) < confirm_cap ?b1" by simp
  qed
  have rec: "?s1\<lparr>votes := votes ?s1 \<union> fst ` set evs,
                    vote_count := vote_count ?s1 + int (length evs)\<rparr> =
             s\<lparr>votes := votes s \<union> fst ` set (ev # evs),
                    vote_count := vote_count s + int (length (ev # evs))\<rparr>"
    by (simp add: ev)
  have unroll: "reaction_adds b r (ev # evs) =
      (fst (reaction_adds ?b1 r evs),
       [Acquire, Log (VoteAdded user (reaction_message r) (vote_count s + 1)), Release]
         @ snd (reaction_adds ?b1 r evs))"
    by (simp add: ev step split: prod.splits)
  from ih show ?case
    unfolding unroll rec [symmetric] by simp
qed

text \<open>
  C3, as the code has it.  Take a fresh session, \<^verbatim>\<open>confirm_cap = N\<close>, and approving
  reactions of \<open>N\<close> distinct users other than the bot: the users of \<open>evs\<close> and then
  \<open>user\<close>.  After each of the first \<open>N - 1\<close> votes (every prefix \<open>take j evs\<close>) the pin
  executor has not run and the session is open with \<open>j\<close> votes.  The \<open>N\<close>-th vote
  runs the pin executor on the target; the session is retired by that vote iff the
  executor returned True, and stays open with \<open>N\<close> votes otherwise.
\<close>

theorem pinned_at_nth_vote:
  assumes "emoji r = check_mark"
    and "map_of (voting_sessions b) (reaction_message r) = Some (new_session tm)"
    and "distinct (map fst evs)"
    and "user \<notin> fst ` set evs"
    and "bot_user b \<notin> insert user (fst ` set evs)"
    and "int (length evs) + 1 = confirm_cap b"
    and "j \<le> length evs"
  shows
    "filter pin_action (snd (reaction_adds b r (take j evs))) = [] \<and>
     map_of (voting_sessions (fst (reaction_adds b r (take j evs)))) (reaction_message r) =
       Some \<lparr>target_message = tm, votes = fst ` set (take j evs), vote_count = int j\<rparr> \<and>
     (let b0 = fst (reaction_adds b r evs);
          s' = \<lparr>target_message = tm, votes = insert user (fst ` set evs),
                vote_count = confirm_cap b\<rparr>;
          (success, b2, ptr) =
             pin_message_safely
               (b0\<lparr>voting_sessions := AList.update (reaction_message r) s' (voting_sessions b0)\<rparr>)
               tm t pin_ok;
          (b', tr) = on_reaction_add b0 r user t pin_ok
      in tr = [Acquire, Log (VoteAdded user (reaction_message r) (confirm_cap b))]
                @ ptr @ [Release] \<and>
         filter pin_action ptr \<noteq> [] \<and>
         map_of (voting_sessions b') (reaction_message r) =
           (if success then None else Some s'))"
proof -
  let ?k = "reaction_message r"
  have below: "filter pin_action (snd (reaction_adds b r es)) = [] \<and>
      map_of (voting_sessions (fst (reaction_adds b r es))) ?k =
        Some \<lparr>target_message = tm, votes = fst ` set es, vote_count = int (length es)\<rparr> \<and>
      confirm_cap (fst (reaction_adds b r es)) = confirm_cap b \<and>
      bot_user (fst (reaction_adds b r es)) = bot_user b"
    if es: "distinct (map fst es)" "bot_user b \<notin> fst ` set es" "int (length es) < confirm_cap b"
    for es
    using votes_below_threshold [OF assms(1) assms(2) es(1) es(2), simplified new_session_def]
      es(3)
    by (simp add: new_session_def)
  have pre_d: "distinct (map fst (take j evs))"
    using assms(3) by (simp add: distinct_take take_map [symmetric])
  have pre_b: "bot_user b \<notin> fst ` set (take j evs)"
    using assms(5) by (auto dest: in_set_takeD)
  have pre_l: "int (length (take j evs)) < confirm_cap b"
    using assms(6,7) by simp
  have len: "int (length (take j evs)) = int j"
    using assms(7) by simp
  have first: "filter pin_action (snd (reaction_adds b r (take j evs))) = [] \<and>
     map_of (voting_sessions (fst (reaction_adds b r (take j evs)))) ?k =
       Some \<lparr>target_message = tm, votes = fst ` set (take j evs), vote_count = int j\<rparr>"
    using below [OF pre_d pre_b pre_l] len by simp
  let ?b0 = "fst (reaction_adds b r evs)"
  let ?s = "\<lparr>target_message = tm, votes = fst ` set evs, vote_count = int (length evs)\<rparr>"
  let ?s' = "\<lparr>target_message = tm, votes = insert user (fst ` set evs),
                vote_count = confirm_cap b\<rparr>"
  let ?b1 = "?b0\<lparr>voting_sessions := AList.update ?k ?s' (voting_sessions ?b0)\<rparr>"
  have all: "map_of (voting_sessions ?b0) ?k = Some ?s"
    and cap0: "confirm_cap ?b0 = confirm_cap b" and bot0: "bot_user ?b0 = bot_user b"
    using below [of evs] assms(3,5,6) by simp_all
  have s': "?s\<lparr>votes := insert user (votes ?s), vote_count := vote_count ?s + 1\<rparr> = ?s'"
    using assms(6) by simp
  have u1: "user \<noteq> bot_user ?b0" using assms(5) bot0 by simp
  have u2: "user \<notin> votes ?s" using assms(4) by simp
  have reach: "confirm_cap ?b0 \<le> vote_count ?s + 1" using assms(6) cap0 by simp
  obtain success b2 ptr where p: "pin_message_safely ?b1 tm t pin_ok = (success, b2, ptr)"
    by (cases "pin_message_safely ?b1 tm t pin_ok") auto
  have vs: "voting_sessions b2 = AList.update ?k ?s' (voting_sessions ?b0)"
    using pin_keeps_sessions [of ?b1 tm t pin_ok] p by simp
  have act: "filter pin_action ptr \<noteq> []"
    using pin_trace_active [of ?b1 tm t pin_ok] p by simp
  have run: "on_reaction_add ?b0 r user t pin_ok =
      (if success then b2\<lparr>voting_sessions := AList.delete ?k (voting_sessions b2)\<rparr> else b2,
       [Acquire, Log (VoteAdded user ?k (confirm_cap b))] @ ptr @ [Release])"
    using on_reaction_add_threshold [OF u1 assms(1) all u2 reach, of t pin_ok] p assms(6)
    unfolding s' by simp
  have look: "map_of (voting_sessions
        (if success then b2\<lparr>voting_sessions := AList.delete ?k (voting_sessions b2)\<rparr> else b2)) ?k =
      (if success then None else Some ?s')"
    by (simp add: vs delete_conv' update_conv')
  have last: "(let b0 = fst (reaction_adds b r evs);
          s' = \<lparr>target_message = tm, votes = insert user (fst ` set evs),
                vote_count = confirm_cap b\<rparr>;
          (success, b2, ptr) =
             pin_message_safely
               (b0\<lparr>voting_sessions := AList.update (reaction_message r) s' (voting_sessions b0)\<rparr>)
               tm t pin_ok;
          (b', tr) = on_reaction_add b0 r user t pin_ok
      in tr = [Acquire, Log (VoteAdded user (reaction_message r) (confirm_cap b))]
                @ ptr @ [Release] \<and>
         filter pin_action ptr \<noteq> [] \<and>
         map_of (voting_sessions b') (reaction_message r) =
           (if success then None else Some s'))"
    using p run look act by (simp add: Let_def)
  from first last show ?thesis by blast
qed

text \<open>
  The instance for \<^verbatim>\<open>confirm_cap\<close> 2, users 7 and 8: nothing is pinned after the first
  vote, the second one pins and retires the session.
\<close>

theorem pinned_at_nth_vote_witness:
  "emoji ex_reaction = check_mark \<and>
   map_of (voting_sessions (ex_bot 2)) (reaction_message ex_reaction) = Some (new_session ex_target) \<and>
   distinct (map fst [(7::int, 30::real, True)]) \<and>
   8 \<notin> fst ` set [(7::int, 30::real, True)] \<and>
   bot_user (ex_bot 2) \<notin> insert 8 (fst ` set [(7::int, 30::real, True)]) \<and>
   int (length [(7::int, 30::real, True)]) + 1 = confirm_cap (ex_bot 2) \<and>
   (1::nat) \<le> length [(7::int, 30::real, True)] \<and>
   filter pin_action (snd (reaction_adds (ex_bot 2) ex_reaction [(7, 30, True)])) = [] \<and>
   map_of (voting_sessions (fst (reaction_adds (ex_bot 2) ex_reaction [(7, 30, True)]))) 1 =
     Some \<lparr>target_message = ex_target, votes = {7}, vote_count = 1\<rparr> \<and>
   on_reaction_add (fst (reaction_adds (ex_bot 2) ex_reaction [(7, 30, True)])) ex_reaction 8 31 True =
     (\<lparr>bot_user = 42, confirm_cap = 2, voting_sessions = [], pin_cooldown = [(9, 31)]\<rparr>,
      [Acquire, Log (VoteAdded 8 1 2), PinMessage ex_target, Log (PinSucceeded 100), Release])"
proof -
  have h1: "emoji ex_reaction = check_mark" by (simp add: ex_defs)
  have h2: "map_of (voting_sessions (ex_bot 2)) (reaction_message ex_reaction) =
      Some (new_session ex_target)"
    by (simp add: ex_defs)
  have h3: "distinct (map fst [(7::int, 30::real, True)])" by simp
  have h4: "8 \<notin> fst ` set [(7::int, 30::real, True)]" by simp
  have h5: "bot_user (ex_bot 2) \<notin> insert 8 (fst ` set [(7::int, 30::real, True)])"
    by (simp add: ex_defs)
  have h6: "int (length [(7::int, 30::real, True)]) + 1 = confirm_cap (ex_bot 2)"
    by (simp add: ex_defs)
  have h7: "(1::nat) \<le> length [(7::int, 30::real, True)]" by simp
  have run: "on_reaction_add (fst (reaction_adds (ex_bot 2) ex_reaction [(7, 30, True)]))
       ex_reaction 8 31 True =
     (\<lparr>bot_user = 42, confirm_cap = 2, voting_sessions = [], pin_cooldown = [(9, 31)]\<rparr>,
      [Acquire, Log (VoteAdded 8 1 2), PinMessage ex_target, Log (PinSucceeded 100), Release])"
    by (simp add: run_defs ex_defs)
  from pinned_at_nth_vote [OF h1 h2 h3 h4 h5 h6 h7, of 31 True]
  have "filter pin_action (snd (reaction_adds (ex_bot 2) ex_reaction [(7, 30, True)])) = [] \<and>
   map_of (voting_sessions (fst (reaction_adds (ex_bot 2) ex_reaction [(7, 30, True)]))) 1 =
     Some \<lparr>target_message = ex_target, votes = {7}, vote_count = 1\<rparr>"
    by (simp add: ex_reaction_def)
  with h1 h2 h3 h4 h5 h6 h7 run show ?thesis by blast
qed

text \<open>
  C3 as the specification words it fails: with \<^verbatim>\<open>confirm_cap\<close> 1 and a pin that
  fails at the first vote, the session is not retired by the first vote but by the
  second one.
\<close>

theorem second_vote_needed_after_failed_pin:
  "confirm_cap (ex_bot 1) = 1 \<and>
   reaction_adds (ex_bot 1) ex_reaction [(7, 30, False)] =
     (\<lparr>bot_user = 42, confirm_cap = 1,
        voting_sessions = [(1, \<lparr>target_message = ex_target, votes = {7}, vote_count = 1\<rparr>)],
        pin_cooldown = [(9, 0)]\<rparr>,
      [Acquire, Log (VoteAdded 7 1 1), PinMessage ex_target, Log (PinFailed 100), Release]) \<and>
   reaction_adds (ex_bot 1) ex_reaction [(7, 30, False), (8, 31, True)] =
     (\<lparr>bot_user = 42, confirm_cap = 1, voting_sessions = [], pin_cooldown = [(9, 31)]\<rparr>,
      [Acquire, Log (VoteAdded 7 1 1), PinMessage ex_target, Log (PinFailed 100), Release,
       Acquire, Log (VoteAdded 8 1 2), PinMessage ex_target, Log (PinSucceeded 100), Release])"
  by (simp add: run_defs ex_defs)

section \<open>Expiry of sessions\<close>

lemma distinct_foldl_delete:
  "distinct (map fst al) \<Longrightarrow> distinct (map fst (foldl (\<lambda>vs k. AList.delete k vs) al ks))"
  by (induction ks arbitrary: al) (simp_all add: distinct_delete)

lemma nothing_to_remove:
  "list_all (\<lambda>x. \<not> P x) xs \<Longrightarrow> filter P xs = []"
  by (induction xs) auto

text \<open>
  C2 says that a sweep run at least 3600 seconds after a session's creation removes
  the session, and the comment of line 82 (remove sessions older than 1 hour) says the
  same of the code.  The code does not do it.  The sweep reads the event loop's clock
  (line 78), which counts seconds from an arbitrary start such as the boot of the
  machine, and subtracts the target message's \<^verbatim>\<open>created_at.timestamp()\<close> (line 83),
  which counts seconds since 1970.  For every store whose targets carry timestamps of
  the platform, and every reading of the loop's clock up to 1420074000 (an uptime of
  45 years), the difference is not above 3600: the sweep removes nothing, however old
  the sessions are.
\<close>

theorem sweep_keeps_every_dated_session:
  assumes "list_all (\<lambda>(k, session). 1420070400 \<le> created_at (target_message session))
             (voting_sessions b)"
    and "current_time \<le> 1420074000"
  shows "cleanup_sweep b current_time = (b, [Acquire, Release])"
proof -
  have "list_all (\<lambda>x. \<not> (case x of (k, session) \<Rightarrow>
            current_time - created_at (target_message session) > 3600))
          (voting_sessions b)"
    using assms by (auto simp: list_all_iff)
  then have "filter (\<lambda>(k, session). current_time - created_at (target_message session) > 3600)
               (voting_sessions b) = []"
    by (rule nothing_to_remove)
  then show ?thesis
    by (simp add: cleanup_sweep_def)
qed

text \<open>
  The failing input: the session of a target written in November 2023, and the sweep
  run when the loop's clock reads 90000, more than a day after the machine started and
  so more than an hour after any session of this process was created.  The session
  is still in the store.
\<close>

theorem sweep_keeps_every_dated_session_witness:
  "1420070400 \<le> created_at (target_message (new_session ex_dated_target)) \<and>
   (90000::real) \<le> 1420074000 \<and>
   cleanup_sweep ex_dated_bot 90000 = (ex_dated_bot, [Acquire, Release]) \<and>
   map_of (voting_sessions (fst (cleanup_sweep ex_dated_bot 90000))) 1 =
     Some (new_session ex_dated_target)"
proof -
  have h1: "list_all (\<lambda>(k, session). 1420070400 \<le> created_at (target_message session))
             (voting_sessions ex_dated_bot)"
    by (simp add: ex_dated_bot_def ex_dated_target_def new_session_def)
  have h2: "(90000::real) \<le> 1420074000" by simp
  have h3: "1420070400 \<le> created_at (target_message (new_session ex_dated_target))"
    by (simp add: ex_dated_target_def new_session_def)
  have run: "cleanup_sweep ex_dated_bot 90000 = (ex_dated_bot, [Acquire, Release])"
    by (rule sweep_keeps_every_dated_session [OF h1 h2])
  have "map_of (voting_sessions ex_dated_bot) 1 = Some (new_session ex_dated_target)"
    by (simp add: ex_dated_bot_def)
  with run h2 h3 show ?thesis by simp
qed

section \<open>Trigger messages\<close>

lemma on_message_creates:
  assumes "reference m = Some ref" and "author_id m \<noteq> bot_user b"
    and "addressed b (content m)" and "confirm_cap b \<noteq> 0"
  shows "on_message b m (Fetched target) react_ok t pin_ok =
     (b\<lparr>voting_sessions := AList.update (msg_id m) (new_session target) (voting_sessions b)\<rparr>,
      [FetchMessage (channel_id m) ref, Acquire, Release]
        @ add_reactions (msg_id m) react_ok
            [check_mark, slash_emoji, get_number_emoji (confirm_cap b)])"
  using assms by (simp add: on_message_def Let_def)

text \<open>
  C6, as the code has it.  For a valid trigger message and \<^verbatim>\<open>confirm_cap\<close> other than
  0, the store afterwards holds the fresh, empty session of the fetched target under
  the trigger's id, whether or not a session was there before (an existing one is
  replaced), and every other key is as before; the keys stay distinct, so there is at
  most one session per trigger key.
\<close>

theorem on_message_replaces_session:
  assumes "reference m = Some ref" and "author_id m \<noteq> bot_user b"
    and "addressed b (content m)" and "confirm_cap b \<noteq> 0"
  shows "map_of (voting_sessions (fst (on_message b m (Fetched target) react_ok t pin_ok))) k =
           (if k = msg_id m then Some (new_session target) else map_of (voting_sessions b) k) \<and>
         (distinct (map fst (voting_sessions b)) \<longrightarrow>
            distinct (map fst
              (voting_sessions (fst (on_message b m (Fetched target) react_ok t pin_ok)))))"
  by (simp add: on_message_creates [OF assms] update_conv' distinct_update)

text \<open>
  The instance for the sample trigger, whose key already holds a session.
\<close>

theorem on_message_replaces_session_witness:
  "reference ex_trigger = Some 100 \<and> author_id ex_trigger \<noteq> bot_user (ex_bot 3) \<and>
   addressed (ex_bot 3) (content ex_trigger) \<and> confirm_cap (ex_bot 3) \<noteq> 0 \<and>
   distinct (map fst (voting_sessions (ex_bot 3))) \<and>
   map_of (voting_sessions (fst (on_message (ex_bot 3) ex_trigger
       (Fetched (ex_target\<lparr>msg_id := 200\<rparr>)) (\<lambda>e. True) 40 True))) 1 =
     Some (new_session (ex_target\<lparr>msg_id := 200\<rparr>)) \<and>
   distinct (map fst (voting_sessions (fst (on_message (ex_bot 3) ex_trigger
       (Fetched (ex_target\<lparr>msg_id := 200\<rparr>)) (\<lambda>e. True) 40 True))))"
proof -
  have h1: "reference ex_trigger = Some 100" by (simp add: ex_defs)
  have h2: "author_id ex_trigger \<noteq> bot_user (ex_bot 3)" by (simp add: ex_defs)
  have h3: "addressed (ex_bot 3) (content ex_trigger)" by (simp add: msg_defs ex_defs)
  have h4: "confirm_cap (ex_bot 3) \<noteq> 0" by (simp add: ex_defs)
  have h5: "distinct (map fst (voting_sessions (ex_bot 3)))" by (simp add: ex_defs)
  from on_message_replaces_session [OF h1 h2 h3 h4, of "ex_target\<lparr>msg_id := 200\<rparr>"
      "\<lambda>e. True" 40 True 1] h5
  have "map_of (voting_sessions (fst (on_message (ex_bot 3) ex_trigger
       (Fetched (ex_target\<lparr>msg_id := 200\<rparr>)) (\<lambda>e. True) 40 True))) 1 =
     Some (new_session (ex_target\<lparr>msg_id := 200\<rparr>)) \<and>
   distinct (map fst (voting_sessions (fst (on_message (ex_bot 3) ex_trigger
       (Fetched (ex_target\<lparr>msg_id := 200\<rparr>)) (\<lambda>e. True) 40 True))))"
    by (simp add: ex_trigger_def)
  with h1 h2 h3 h4 h5 show ?thesis by blast
qed

text \<open>
  C6 as the specification words it fails: a session with one vote under key 1 is
  replaced by an empty one when a trigger message with id 1 is handled.
\<close>

theorem second_create_overwrites:
  "map_of (voting_sessions
      ((ex_bot 3)\<lparr>voting_sessions :=
          [(1, \<lparr>target_message = ex_target, votes = {7}, vote_count = 1\<rparr>)]\<rparr>))
     (msg_id ex_trigger) = Some \<lparr>target_message = ex_target, votes = {7}, vote_count = 1\<rparr> \<and>
   fst (on_message
      ((ex_bot 3)\<lparr>voting_sessions :=
          [(1, \<lparr>target_message = ex_target, votes = {7}, vote_count = 1\<rparr>)]\<rparr>)
      ex_trigger (Fetched ex_target) (\<lambda>e. True) 40 True) =
     (ex_bot 3)\<lparr>voting_sessions :=
          [(1, \<lparr>target_message = ex_target, votes = {}, vote_count = 0\<rparr>)]\<rparr>"
  by (simp add: msg_defs ex_defs)

text \<open>
  C9.  With \<^verbatim>\<open>confirm_cap = 0\<close>, a trigger message that has a reply reference, is not
  written by the bot and addresses the bot at its start, and whose referenced message
  the platform returns, makes the handler run the pin executor on that message right
  after the fetch; the store of voting sessions is left as it was.
\<close>

theorem immediate_pin_without_session:
  assumes "confirm_cap b = 0"
    and "reference m = Some ref" and "author_id m \<noteq> bot_user b"
    and "addressed b (content m)"
  shows "(case pin_message_safely b target t pin_ok of
            (success, b1, ptr) \<Rightarrow>
              on_message b m (Fetched target) react_ok t pin_ok =
                (b1, FetchMessage (channel_id m) ref # ptr) \<and>
              filter pin_action ptr \<noteq> []) \<and>
         voting_sessions (fst (on_message b m (Fetched target) react_ok t pin_ok)) =
           voting_sessions b"
proof -
  obtain success b1 ptr where p: "pin_message_safely b target t pin_ok = (success, b1, ptr)"
    by (cases "pin_message_safely b target t pin_ok") auto
  have run: "on_message b m (Fetched target) react_ok t pin_ok =
      (b1, FetchMessage (channel_id m) ref # ptr)"
    using assms p by (simp add: on_message_def)
  have act: "filter pin_action ptr \<noteq> []"
    using pin_trace_active [of b target t pin_ok] p by simp
  have keep: "voting_sessions b1 = voting_sessions b"
    using pin_keeps_sessions [of b target t pin_ok] p by simp
  from p run act keep show ?thesis by simp
qed

text \<open>
  The instance for the sample trigger and a bot with no sessions: the target is
  pinned and the store is still empty.
\<close>

theorem immediate_pin_without_session_witness:
  "confirm_cap (init_bot 42 0) = 0 \<and> reference ex_trigger = Some 100 \<and>
   author_id ex_trigger \<noteq> bot_user (init_bot 42 0) \<and>
   addressed (init_bot 42 0) (content ex_trigger) \<and>
   on_message (init_bot 42 0) ex_trigger (Fetched ex_target) (\<lambda>e. True) 10 True =
     (\<lparr>bot_user = 42, confirm_cap = 0, voting_sessions = [], pin_cooldown = [(9, 10)]\<rparr>,
      [FetchMessage 9 100, PinMessage ex_target, Log (PinSucceeded 100)])"
proof -
  have h1: "confirm_cap (init_bot 42 0) = 0" by (simp add: init_bot_def)
  have h2: "reference ex_trigger = Some 100" by (simp add: ex_defs)
  have h3: "author_id ex_trigger \<noteq> bot_user (init_bot 42 0)"
    by (simp add: ex_defs init_bot_def)
  have h4: "addressed (init_bot 42 0) (content ex_trigger)"
    by (simp add: msg_defs ex_defs init_bot_def)
  have p: "pin_message_safely (init_bot 42 0) ex_target 10 True =
     (True, \<lparr>bot_user = 42, confirm_cap = 0, voting_sessions = [], pin_cooldown = [(9, 10)]\<rparr>,
      [PinMessage ex_target, Log (PinSucceeded 100)])"
    by (simp add: run_defs init_bot_def ex_defs)
  from immediate_pin_without_session [OF h1 h2 h3 h4, where target = ex_target and t = 10
      and pin_ok = True and react_ok = "\<lambda>e. True"] p
  have "on_message (init_bot 42 0) ex_trigger (Fetched ex_target) (\<lambda>e. True) 10 True =
     (\<lparr>bot_user = 42, confirm_cap = 0, voting_sessions = [], pin_cooldown = [(9, 10)]\<rparr>,
      [FetchMessage 9 100, PinMessage ex_target, Log (PinSucceeded 100)])"
    by (simp add: ex_trigger_def)
  with h1 h2 h3 h4 show ?thesis by blast
qed

section \<open>Platform calls and the session lock\<close>

lemma unlocked_trace: "Acquire \<notin> set tr \<Longrightarrow> no_call_under_lock False tr"
  by (induction False tr rule: no_call_under_lock.induct) auto

lemma add_reactions_unlocked: "Acquire \<notin> set (add_reactions i react_ok es)"
  by (induction es) auto

lemma pin_unlocked: "Acquire \<notin> set (snd (snd (pin_message_safely b m t ok)))"
  by (simp add: pin_trace)

lemma on_message_lock: "no_call_under_lock False (snd (on_message b m fetched react_ok t pin_ok))"
proof -
  have pin: "no_call_under_lock False ptr"
    if "pin_message_safely b x t pin_ok = (ok', b', ptr)" for x ok' b' ptr
    using unlocked_trace [OF pin_unlocked [of b x t pin_ok]] that by simp
  have reacts: "no_call_under_lock False (add_reactions i react_ok es)" for i es
    by (rule unlocked_trace [OF add_reactions_unlocked])
  show ?thesis
    using reacts
    by (auto simp: on_message_def Let_def dest: pin
        split: option.splits fetch_result.splits prod.splits)
qed

lemma on_reaction_remove_lock: "no_call_under_lock False (snd (on_reaction_remove b r user))"
  by (simp add: on_reaction_remove_def Let_def split: option.splits prod.splits bool.splits)

lemma cleanup_sweep_lock: "no_call_under_lock False (snd (cleanup_sweep b t))"
proof -
  have "no_call_under_lock True (map (\<lambda>k. Log (CleanedUp k)) ks @ [Release])"
    for ks :: "int list"
    by (induction ks) auto
  then show ?thesis
    by (simp add: cleanup_sweep_def Let_def del: map_map)
qed

lemma on_reaction_add_external:
  "filter external (snd (on_reaction_add b r user t pin_ok)) = [] \<or>
   (\<exists>s. map_of (voting_sessions b) (reaction_message r) = Some s \<and>
        snd (on_reaction_add b r user t pin_ok) =
          [Acquire, Log (VoteAdded user (reaction_message r) (vote_count s + 1)),
           PinMessage (target_message s),
           Log ((if pin_ok then PinSucceeded else PinFailed) (msg_id (target_message s))),
           Release])"
proof (cases "user = bot_user b \<or> emoji r \<noteq> check_mark")
  case True
  then show ?thesis by (auto simp: on_reaction_add_def)
next
  case guard: False
  show ?thesis
  proof (cases "map_of (voting_sessions b) (reaction_message r)")
    case None
    with guard show ?thesis by (simp add: on_reaction_add_def)
  next
    case (Some s)
    show ?thesis
    proof (cases "user \<in> votes s")
      case True
      with guard Some show ?thesis by (simp add: on_reaction_add_def add_vote_def)
    next
      case new: False
      show ?thesis
      proof (cases "confirm_cap b \<le> vote_count s + 1")
        case False
        with guard Some new show ?thesis
          by (simp add: on_reaction_add_def add_vote_new Let_def)
      next
        case True
        let ?b1 = "b\<lparr>voting_sessions := AList.update (reaction_message r)
                  (s\<lparr>votes := insert user (votes s), vote_count := vote_count s + 1\<rparr>)
                  (voting_sessions b)\<rparr>"
        from guard have g: "user \<noteq> bot_user b" "emoji r = check_mark" by auto
        note run = on_reaction_add_threshold [OF g Some new True, of t pin_ok]
        have tr: "snd (on_reaction_add b r user t pin_ok) =
            [Acquire, Log (VoteAdded user (reaction_message r) (vote_count s + 1))]
              @ snd (snd (pin_message_safely ?b1 (target_message s) t pin_ok)) @ [Release]"
          by (simp add: run split: prod.splits)
        show ?thesis
          using Some by (auto simp: tr pin_trace)
      qed
    qed
  qed
qed

text \<open>
  C8, as the code has it.  \<^verbatim>\<open>on_message\<close>, \<^verbatim>\<open>on_reaction_remove\<close> and the cleanup sweep
  make no platform call while the session lock is held.  \<^verbatim>\<open>on_reaction_add\<close> makes at
  most one platform call, the pin of the session's target message, and makes it while
  holding the lock.
\<close>

theorem lock_discipline:
  "no_call_under_lock False (snd (on_message b m fetched react_ok t pin_ok)) \<and>
   no_call_under_lock False (snd (on_reaction_remove b r user)) \<and>
   no_call_under_lock False (snd (cleanup_sweep b t)) \<and>
   (filter external (snd (on_reaction_add b r user t pin_ok)) = [] \<and>
    no_call_under_lock False (snd (on_reaction_add b r user t pin_ok)) \<or>
    (\<exists>s. map_of (voting_sessions b) (reaction_message r) = Some s \<and>
         filter external (snd (on_reaction_add b r user t pin_ok)) =
           [PinMessage (target_message s)] \<and>
         \<not> no_call_under_lock False (snd (on_reaction_add b r user t pin_ok))))"
proof -
  have quiet: "no_call_under_lock h tr" if "filter external tr = []" for h tr
    using that by (induction h tr rule: no_call_under_lock.induct) (auto split: if_splits)
  have "filter external (snd (on_reaction_add b r user t pin_ok)) = [] \<and>
    no_call_under_lock False (snd (on_reaction_add b r user t pin_ok)) \<or>
    (\<exists>s. map_of (voting_sessions b) (reaction_message r) = Some s \<and>
         filter external (snd (on_reaction_add b r user t pin_ok)) =
           [PinMessage (target_message s)] \<and>
         \<not> no_call_under_lock False (snd (on_reaction_add b r user t pin_ok)))"
    using on_reaction_add_external [of b r user t pin_ok] quiet
    by auto
  then show ?thesis
    using on_message_lock on_reaction_remove_lock cleanup_sweep_lock by blast
qed

text \<open>
  The instance for the sample data: the three handlers of the first part keep the
  discipline, and the vote that reaches the threshold pins under the lock.
\<close>

theorem lock_discipline_witness:
  "no_call_under_lock False
     (snd (on_message (ex_bot 3) ex_trigger (Fetched ex_target) (\<lambda>e. True) 40 True)) \<and>
   no_call_under_lock False (snd (on_reaction_remove (ex_bot 3) ex_reaction 7)) \<and>
   no_call_under_lock False (snd (cleanup_sweep (ex_bot 3) 3601)) \<and>
   filter external (snd (on_reaction_add (ex_bot 1) ex_reaction 7 30 True)) =
     [PinMessage ex_target] \<and>
   \<not> no_call_under_lock False (snd (on_reaction_add (ex_bot 1) ex_reaction 7 30 True))"
proof -
  have ext: "filter external (snd (on_reaction_add (ex_bot 1) ex_reaction 7 30 True)) =
     [PinMessage ex_target]"
    by (simp add: run_defs ex_defs)
  from lock_discipline [of "ex_bot 3" ex_trigger "Fetched ex_target" "\<lambda>e. True" 40 True
      ex_reaction 7]
  have a: "no_call_under_lock False
     (snd (on_message (ex_bot 3) ex_trigger (Fetched ex_target) (\<lambda>e. True) 40 True)) \<and>
   no_call_under_lock False (snd (on_reaction_remove (ex_bot 3) ex_reaction 7))"
    by blast
  from lock_discipline [of "ex_bot 3" ex_trigger "Fetched ex_target" "\<lambda>e. True" 3601 True
      ex_reaction 7]
  have b: "no_call_under_lock False (snd (cleanup_sweep (ex_bot 3) 3601))" by blast
  from lock_discipline [of "ex_bot 1" ex_trigger "Fetched ex_target" "\<lambda>e. True" 30 True
      ex_reaction 7] ext
  have c: "\<not> no_call_under_lock False (snd (on_reaction_add (ex_bot 1) ex_reaction 7 30 True))"
    by auto
  from a b c ext show ?thesis by blast
qed

text \<open>
  C8 as the specification words it fails: the vote that reaches the threshold calls
  \<^verbatim>\<open>message.pin()\<close> between taking and leaving the lock.
\<close>

theorem pin_called_under_lock:
  "snd (on_reaction_add (ex_bot 1) ex_reaction 7 30 True) =
     [Acquire, Log (VoteAdded 7 1 1), PinMessage ex_target, Log (PinSucceeded 100), Release] \<and>
   \<not> no_call_under_lock False (snd (on_reaction_add (ex_bot 1) ex_reaction 7 30 True))"
  by (simp add: run_defs ex_defs)

section \<open>The keys of the store stay distinct\<close>

lemma keys_distinct_reaction_add:
  assumes "distinct (map fst (voting_sessions b))"
  shows "distinct (map fst (voting_sessions (fst (on_reaction_add b r user t pin_ok))))"
proof -
  have pin: "voting_sessions b2 = voting_sessions b1"
    if "pin_message_safely b1 m t pin_ok = (success, b2, ptr)" for b1 m success b2 ptr
    using pin_keeps_sessions [of b1 m t pin_ok] that by simp
  show ?thesis
    using assms
    by (auto simp: on_reaction_add_def Let_def distinct_update distinct_delete
        dest!: pin split: option.splits prod.splits bool.splits)
qed

lemma keys_distinct_reaction_remove:
  "distinct (map fst (voting_sessions b)) \<Longrightarrow>
     distinct (map fst (voting_sessions (fst (on_reaction_remove b r user))))"
  by (auto simp: on_reaction_remove_def Let_def distinct_update
      split: option.splits prod.splits bool.splits)

lemma keys_distinct_sweep:
  "distinct (map fst (voting_sessions b)) \<Longrightarrow>
     distinct (map fst (voting_sessions (fst (cleanup_sweep b t))))"
  by (simp add: cleanup_sweep_def Let_def distinct_foldl_delete)

lemma keys_distinct_message:
  assumes "distinct (map fst (voting_sessions b))"
  shows "distinct (map fst (voting_sessions (fst (on_message b m fetched react_ok t pin_ok))))"
proof -
  have pin: "voting_sessions b2 = voting_sessions b"
    if "pin_message_safely b x t pin_ok = (success, b2, ptr)" for x success b2 ptr
    using pin_keeps_sessions [of b x t pin_ok] that by simp
  show ?thesis
    using assms
    by (auto simp: on_message_def Let_def distinct_update
        dest!: pin split: option.splits prod.splits fetch_result.splits)
qed

section \<open>Startup\<close>

text \<open>
  C10.  With \<^verbatim>\<open>TOKEN\<close> set to a non-empty value and \<^verbatim>\<open>CONFIRM_CAP\<close> unset, startup gets
  as far as running the bot, with a confirmation cap of 3 (the default that
  \<^verbatim>\<open>os.getenv\<close> is given), provided \<^verbatim>\<open>int("3")\<close> is 3.
\<close>

theorem default_confirm_cap:
  assumes "env ''TOKEN'' = Some token" and "token \<noteq> []"
    and "env ''CONFIRM_CAP'' = None"
    and "py_int ''3'' = Some 3"
  shows "main py_int env = BotRun token 3"
  using assms by (simp add: main_def getenv_def)

text \<open>
  The instance for an environment holding only a token.
\<close>

theorem default_confirm_cap_witness:
  "[''TOKEN'' \<mapsto> ''abc''] ''TOKEN'' = Some ''abc'' \<and> ''abc'' \<noteq> [] \<and>
   [''TOKEN'' \<mapsto> ''abc''] ''CONFIRM_CAP'' = None \<and>
   decimal_int ''3'' = Some 3 \<and>
   main decimal_int [''TOKEN'' \<mapsto> ''abc''] = BotRun ''abc'' 3"
proof -
  have h1: "[''TOKEN'' \<mapsto> ''abc''] ''TOKEN'' = Some ''abc''" by simp
  have h2: "''abc'' \<noteq> []" by simp
  have h3: "[''TOKEN'' \<mapsto> ''abc''] ''CONFIRM_CAP'' = None" by simp
  have h4: "decimal_int ''3'' = Some 3" by (simp add: decimal_int_def)
  from default_confirm_cap [where env = "[''TOKEN'' \<mapsto> ''abc'']" and token = "''abc''"
      and py_int = decimal_int, OF h1 h2 h3 h4] h1 h2 h3 h4
  show ?thesis by blast
qed

end
